theory Spec2Isabelle
  imports Complex_Main "HOL-Library.Multiset"
begin

section \<open>The recommendation hook \<open>useBacklinkRecommendations\<close>\<close>

text \<open>
  The hook closes over the visited history, the query client (through which the three
  fetchers \<open>fetchArticleBacklinks\<close>, \<open>fetchArticleLinks\<close> and \<open>fetchArticleSummary\<close> are
  called) and the two pieces of React state \<open>loading\<close> and \<open>error\<close>. The fetchers and
  \<open>Math.random\<close> are not part of the hook: they are parameters of the model. Where the
  source names a variable \<open>title\<close> or \<open>error\<close>, the model writes \<open>t\<close> or \<open>e\<close>: the two names
  are record fields here.
\<close>

subsection \<open>Data\<close>

record VisitedArticle =
  title :: string
  visitedAt :: nat

text \<open>The summary record \<open>response.article\<close>; only the six fields the hook reads.\<close>

record Article =
  title :: string
  displaytitle :: "string option"
  description :: "string option"
  "extract" :: "string option"
  thumbnail :: "string option"
  pageid :: "nat option"

record RecommendationItem =
  title :: string
  displaytitle :: "string option"
  description :: "string option"
  "extract" :: "string option"
  thumbnail :: "string option"
  pageid :: "nat option"

text \<open>What a rejected promise or a failing statement throws.\<close>

datatype exn = Rejected string | TypeError

text \<open>
  What a link query settles to when it does not reject: a list of titles, or a value that
  \<open>for (const title of linkList)\<close> cannot iterate (\<open>null\<close>), on which the loop throws.
\<close>

datatype linkList = Titles "string list" | NotIterable

text \<open>
  \<open>fetchArticleSummary F t = Inr None\<close> is a response whose \<open>article\<close> is \<open>null\<close>;
  \<open>Inl e\<close> is a rejected query (also a \<open>null\<close> response, on which \<open>response.article\<close> throws
  inside the query function). In \<open>getRecommendations\<close> below, \<open>F\<close> gives what each call of
  \<open>queryClient.fetchQuery\<close> settles to; the section on the query cache composes it from the
  fetchers proper and the entries of the cache.
\<close>

record Fetchers =
  fetchArticleBacklinks :: "string \<Rightarrow> exn + linkList"
  fetchArticleLinks :: "string \<Rightarrow> exn + linkList"
  fetchArticleSummary :: "string \<Rightarrow> exn + Article option"

text \<open>A query key \<open>[kind, title]\<close> as passed to \<open>queryClient.fetchQuery\<close>.\<close>

type_synonym queryKey = "string \<times> string"

record HookState =
  loading :: bool
  error :: "string option"

subsection \<open>The random source\<close>

text \<open>
  \<open>Math.random()\<close> returns a number that is at least 0 and less than 1. The numbers are
  taken as reals, and products with them as exact. A random source gives the value of the
  \<open>p\<close>-th call of \<open>Math.random\<close> within one invocation of \<open>getRecommendations\<close>.
\<close>

typedef random_number = "{r::real. 0 \<le> r \<and> r < 1}"
  morphisms float_of Random
  by (rule exI[of _ 0]) simp

type_synonym random_source = "nat \<Rightarrow> random_number"

text \<open>
  \<open>Math.floor(Math.random() * n)\<close> for an array length or set size \<open>n\<close>. The code forms the
  product in IEEE double arithmetic, which rounds it (\<open>0.6 * 5\<close> is \<open>3\<close>, while the exact
  product of that double and 5 is less than 3); \<open>floor_random\<close> takes the exact product. Either
  way the index is less than \<open>n\<close>, and the theorems below use no more of \<open>floor_random\<close> than
  this (\<open>floor_random_less\<close>). On the inputs evaluated below, 0 and 3/4 times 1, 2 and 3, the
  double product is exact.
\<close>

definition floor_random :: "random_number \<Rightarrow> nat \<Rightarrow> nat" where
  "floor_random r n = nat \<lfloor>float_of r * real n\<rfloor>"

subsection \<open>Step 1: source articles (lines 106 to 118)\<close>

text \<open>
  The loop \<open>for (let i = 0; i < maxSourceArticles && availableIndices.size > 0; i++)\<close>.
  \<open>availableIndices\<close> is a \<open>Set\<close>, which iterates in insertion order, so \<open>Array.from\<close> of
  it is the list of the remaining indices in increasing order of insertion. \<open>selected\<close>
  collects the successive values of \<open>selectedIndex\<close>; the source pushes
  \<open>visitedArticles[selectedIndex]\<close>. The result carries the number of calls of
  \<open>Math.random\<close> made so far. The body runs only while the set is not empty, so
  \<open>randomIndex\<close> is a position of the list (\<open>floor_random_less\<close> below) and \<open>selectedIndex\<close>
  is an index of the history.
\<close>

function sampleLoop ::
  "random_source \<Rightarrow> int \<Rightarrow> nat \<Rightarrow> nat \<Rightarrow> nat list \<Rightarrow> nat list \<Rightarrow> nat \<times> nat list" where
  "sampleLoop rnd maxSourceArticles p i availableIndices selected =
     (if int i < maxSourceArticles \<and> length availableIndices > 0 then
        let randomIndex = floor_random (rnd p) (length availableIndices);
            selectedIndex = availableIndices ! randomIndex
        in sampleLoop rnd maxSourceArticles (p + 1) (i + 1)
             (remove1 selectedIndex availableIndices) (selected @ [selectedIndex])
      else (p, selected))"
  by pat_completeness auto
termination
  by (relation "measure (\<lambda>(rnd, m, p, i, a, s). nat (m - int i))") auto

declare sampleLoop.simps [simp del]

definition maxSourceArticles :: "VisitedArticle list \<Rightarrow> int \<Rightarrow> int" where
  "maxSourceArticles visitedArticles limit =
     min (int (length visitedArticles)) \<lceil>real_of_int limit / 2\<rceil>"

definition selectSources :: "random_source \<Rightarrow> VisitedArticle list \<Rightarrow> int \<Rightarrow> nat \<times> nat list" where
  "selectSources rnd visitedArticles limit =
     sampleLoop rnd (maxSourceArticles visitedArticles limit) 0 0
       [0..<length visitedArticles] []"

subsection \<open>Step 1: link lists (lines 121 to 148)\<close>

text \<open>
  Each async callback of \<open>sourceArticles.map\<close> runs up to its first \<open>await\<close> when it is
  called: it draws the coin and issues its query, in the order of the source articles.
  \<open>Promise.all\<close> keeps that order in \<open>linkResults\<close>. A rejected query is caught by the
  callback, which then returns \<open>[]\<close>.
\<close>

fun linkPromises ::
  "Fetchers \<Rightarrow> random_source \<Rightarrow> nat \<Rightarrow> VisitedArticle list \<Rightarrow> nat \<times> queryKey list \<times> linkList list" where
  "linkPromises F rnd p [] = (p, [], [])"
| "linkPromises F rnd p (article # rest) =
     (let useBacklinks = (float_of (rnd p) > 0.5);
          queryKey = (if useBacklinks then (''article-backlinks'', VisitedArticle.title article)
                      else (''article-links'', VisitedArticle.title article));
          settled = (if useBacklinks then fetchArticleBacklinks F (VisitedArticle.title article)
                     else fetchArticleLinks F (VisitedArticle.title article));
          links = (case settled of Inl e \<Rightarrow> Titles [] | Inr links \<Rightarrow> links);
          (p', keys, linkResults) = linkPromises F rnd (p + 1) rest
      in (p', queryKey # keys, links # linkResults))"

subsection \<open>Step 1: flatten and filter (lines 150 to 159)\<close>

text \<open>
  The body of the inner loop, on the pair \<open>(processedTitles, allCandidates)\<close>; \<open>t\<close> is the
  loop variable \<open>title\<close>.
\<close>

definition addCandidate ::
  "string set \<Rightarrow> string \<Rightarrow> string set \<times> string list \<Rightarrow> string set \<times> string list" where
  "addCandidate visitedTitlesSet t s =
     (case s of (processedTitles, allCandidates) \<Rightarrow>
        if t \<notin> visitedTitlesSet \<and> t \<notin> processedTitles
        then (insert t processedTitles, allCandidates @ [t])
        else (processedTitles, allCandidates))"

fun flatten ::
  "string set \<Rightarrow> linkList list \<Rightarrow> string set \<times> string list \<Rightarrow> exn + string list" where
  "flatten visitedTitlesSet [] s = Inr (snd s)"
| "flatten visitedTitlesSet (NotIterable # rest) s = Inl TypeError"
| "flatten visitedTitlesSet (Titles titles # rest) s =
     flatten visitedTitlesSet rest (fold (addCandidate visitedTitlesSet) titles s)"

subsection \<open>Step 1: shuffle (lines 161 to 166)\<close>

text \<open>
  The loop \<open>for (let i = allCandidates.length - 1; i > 0; i--)\<close>; the third argument is
  \<open>i\<close>. The destructuring assignment reads both elements and then writes
  \<open>allCandidates[i]\<close> and \<open>allCandidates[j]\<close>, in this order. \<open>j\<close> is at most \<open>i\<close>, which
  is a position of the array.
\<close>

fun shuffleLoop :: "random_source \<Rightarrow> nat \<Rightarrow> nat \<Rightarrow> 'a list \<Rightarrow> nat \<times> 'a list" where
  "shuffleLoop rnd p 0 allCandidates = (p, allCandidates)"
| "shuffleLoop rnd p (Suc k) allCandidates =
     (let i = Suc k;
          j = floor_random (rnd p) (i + 1)
      in shuffleLoop rnd (p + 1) k (allCandidates[i := allCandidates ! j, j := allCandidates ! i]))"

text \<open>On the empty list \<open>i\<close> starts at \<open>-1\<close> and the loop does not run, as from \<open>0\<close>.\<close>

definition shuffle :: "random_source \<Rightarrow> nat \<Rightarrow> 'a list \<Rightarrow> nat \<times> 'a list" where
  "shuffle rnd p allCandidates = shuffleLoop rnd p (length allCandidates - 1) allCandidates"

subsection \<open>Step 2: summaries (lines 168 to 225)\<close>

text \<open>\<open>Array.prototype.slice(0, end)\<close>: a negative \<open>end\<close> counts from the end of the array.\<close>

definition slice0 :: "'a list \<Rightarrow> int \<Rightarrow> 'a list" where
  "slice0 xs end = (if end < 0 then take (nat (int (length xs) + end)) xs else take (nat end) xs)"

text \<open>What the promise of one candidate resolves to; it never rejects.\<close>

definition summaryPromise :: "Fetchers \<Rightarrow> string \<Rightarrow> RecommendationItem option" where
  "summaryPromise F t =
     (case fetchArticleSummary F t of
        Inl e \<Rightarrow>
          Some \<lparr>title = t, displaytitle = Some t, description = None,
                extract = None, thumbnail = None, pageid = None\<rparr>
      | Inr None \<Rightarrow> None
      | Inr (Some summaryResponse) \<Rightarrow>
          Some \<lparr>title = Article.title summaryResponse,
                displaytitle = Article.displaytitle summaryResponse,
                description = Article.description summaryResponse,
                extract = Article.extract summaryResponse,
                thumbnail = Article.thumbnail summaryResponse,
                pageid = Article.pageid summaryResponse\<rparr>)"

text \<open>
  The loop \<open>for (let i = 0; i < fetchLimit && recommendations.length < limit; i++)\<close>. It
  issues the query of each promise as it creates it. Nothing is pushed to
  \<open>recommendations\<close> before the loop ends. \<open>fetchLimit\<close> is at most the length of
  \<open>candidateTitles\<close>, so \<open>candidateTitles[i]\<close> is read in range.
\<close>

function summaryLoop ::
  "Fetchers \<Rightarrow> int \<Rightarrow> int \<Rightarrow> string list \<Rightarrow> RecommendationItem list \<Rightarrow> nat
     \<Rightarrow> queryKey list \<times> RecommendationItem option list" where
  "summaryLoop F limit fetchLimit candidateTitles recommendations i =
     (if int i < fetchLimit \<and> int (length recommendations) < limit then
        let t = candidateTitles ! i;
            (keys, summaryPromises) =
              summaryLoop F limit fetchLimit candidateTitles recommendations (i + 1)
        in ((''article'', t) # keys, summaryPromise F t # summaryPromises)
      else ([], []))"
  by pat_completeness auto
termination
  by (relation "measure (\<lambda>(F, l, fl, c, r, i). nat (fl - int i))") auto

declare summaryLoop.simps [simp del]

text \<open>The loop over \<open>results\<close> after \<open>Promise.all\<close>, which keeps the order of the promises.\<close>

fun collect ::
  "int \<Rightarrow> RecommendationItem option list \<Rightarrow> RecommendationItem list \<Rightarrow> RecommendationItem list" where
  "collect limit [] recommendations = recommendations"
| "collect limit (result # results) recommendations =
     collect limit results
       (case result of
          Some item \<Rightarrow>
            if int (length recommendations) < limit then recommendations @ [item]
            else recommendations
        | None \<Rightarrow> recommendations)"

definition resolveSummaries ::
  "Fetchers \<Rightarrow> int \<Rightarrow> string list \<Rightarrow> RecommendationItem list \<times> queryKey list" where
  "resolveSummaries F limit allCandidates =
     (let candidateTitles = slice0 allCandidates limit;
          recommendations = [];
          fetchLimit = min (int (length candidateTitles)) (limit + 5);
          (keys, summaryPromises) = summaryLoop F limit fetchLimit candidateTitles recommendations 0
      in (collect limit summaryPromises recommendations, keys))"

subsection \<open>\<open>getRecommendations\<close> (lines 91 to 234)\<close>

text \<open>Step 1 as a whole: the shuffled candidates, or what the flattening threw.\<close>

definition collectCandidates ::
  "Fetchers \<Rightarrow> random_source \<Rightarrow> VisitedArticle list \<Rightarrow> int \<Rightarrow> (exn + string list) \<times> queryKey list" where
  "collectCandidates F rnd visitedArticles limit =
     (let visitedTitlesSet = set (map VisitedArticle.title visitedArticles);
          (p1, selected) = selectSources rnd visitedArticles limit;
          sourceArticles = map (\<lambda>selectedIndex. visitedArticles ! selectedIndex) selected;
          (p2, keys, linkResults) = linkPromises F rnd p1 sourceArticles
      in case flatten visitedTitlesSet linkResults ({}, []) of
           Inl e \<Rightarrow> (Inl e, keys)
         | Inr allCandidates \<Rightarrow> (Inr (snd (shuffle rnd p2 allCandidates)), keys))"

text \<open>The \<open>try\<close> block: what it returns or throws, and the queries it issued.\<close>

definition tryBlock ::
  "Fetchers \<Rightarrow> random_source \<Rightarrow> VisitedArticle list \<Rightarrow> int
     \<Rightarrow> (exn + RecommendationItem list) \<times> queryKey list" where
  "tryBlock F rnd visitedArticles limit =
     (if length visitedArticles = 0 then (Inr [], [])
      else case collectCandidates F rnd visitedArticles limit of
             (Inl e, keys) \<Rightarrow> (Inl e, keys)
           | (Inr allCandidates, keys) \<Rightarrow>
               (let (recommendations, keys') = resolveSummaries F limit allCandidates
                in (Inr recommendations, keys @ keys')))"

record Outcome =
  resolved :: "RecommendationItem list"
  state :: HookState
  requests :: "queryKey list"

text \<open>
  \<open>setLoading(true); setError(null)\<close>, the \<open>try\<close> block, \<open>catch\<close> and \<open>finally\<close>. The
  promise of \<open>getRecommendations\<close> resolves to \<open>resolved\<close>; the model has no rejected
  outcome because both exits of the \<open>try\<close> statement return.
\<close>

definition getRecommendations ::
  "Fetchers \<Rightarrow> random_source \<Rightarrow> VisitedArticle list \<Rightarrow> HookState \<Rightarrow> int \<Rightarrow> Outcome" where
  "getRecommendations F rnd visitedArticles s limit =
     (let s1 = s\<lparr>loading := True\<rparr>;
          s2 = s1\<lparr>error := None\<rparr>
      in case tryBlock F rnd visitedArticles limit of
           (Inr recommendations, keys) \<Rightarrow>
             \<lparr>resolved = recommendations, state = s2\<lparr>loading := False\<rparr>, requests = keys\<rparr>
         | (Inl e, keys) \<Rightarrow>
             \<lparr>resolved = [],
              state = s2\<lparr>error := Some ''Failed to fetch recommendations'', loading := False\<rparr>,
              requests = keys\<rparr>)"

section \<open>The query cache\<close>

text \<open>
  The entries of the query cache that are fresh when a run requests their keys: younger than
  the \<open>staleTime\<close> of the query, 10 minutes for the two link queries and 5 minutes for the
  summary query. The data under \<open>['article', title]\<close> is \<open>response.article\<close>, which can be
  \<open>null\<close>.
\<close>

record QueryCache =
  freshBacklinks :: "string \<rightharpoonup> linkList"
  freshLinks :: "string \<rightharpoonup> linkList"
  freshArticle :: "string \<rightharpoonup> Article option"

text \<open>
  Modelled from the spec: \<open>queryClient.fetchQuery\<close>, a method of the query library, whose
  code is not among the sources of the repository. By the contract of the cache-backed fetch
  layer, a fresh entry for the key is returned without invoking the producer; otherwise the
  producer is invoked, and its failure propagates to the caller.
\<close>

definition fetchQuery :: "('k \<rightharpoonup> 'v) \<Rightarrow> ('k \<Rightarrow> exn + 'v) \<Rightarrow> 'k \<Rightarrow> exn + 'v" where
  "fetchQuery fresh queryFn key = (case fresh key of Some data \<Rightarrow> Inr data | None \<Rightarrow> queryFn key)"

text \<open>What the three queries of \<open>getRecommendations\<close> settle to, given the cache and the fetchers.\<close>

definition throughCache :: "QueryCache \<Rightarrow> Fetchers \<Rightarrow> Fetchers" where
  "throughCache C F =
     \<lparr>fetchArticleBacklinks = fetchQuery (freshBacklinks C) (fetchArticleBacklinks F),
      fetchArticleLinks = fetchQuery (freshLinks C) (fetchArticleLinks F),
      fetchArticleSummary = fetchQuery (freshArticle C) (fetchArticleSummary F)\<rparr>"

text \<open>
  A run of \<open>getRecommendations\<close> on a cache and fetchers. Within one run a key is settled the
  same way each time it is requested (two source articles of the same title request the same
  link key at the same moment and share one fetch), so the entries that the run itself stores
  do not change what its queries settle to.
\<close>

definition getRecommendationsCached ::
  "QueryCache \<Rightarrow> Fetchers \<Rightarrow> random_source \<Rightarrow> VisitedArticle list \<Rightarrow> HookState \<Rightarrow> int \<Rightarrow> Outcome" where
  "getRecommendationsCached C F rnd visitedArticles s limit =
     getRecommendations (throughCache C F) rnd visitedArticles s limit"

section \<open>Concrete inputs\<close>

text \<open>A random source that always returns 0, and one that always returns 3/4.\<close>

definition zeros :: random_source where
  "zeros = (\<lambda>p. Random 0)"

definition threeQuarters :: random_source where
  "threeQuarters = (\<lambda>p. Random (3/4))"

definition idle :: HookState where
  "idle = \<lparr>loading = False, error = None\<rparr>"

definition visitedA :: "VisitedArticle list" where
  "visitedA = [\<lparr>VisitedArticle.title = ''A'', visitedAt = 0\<rparr>]"

definition visitedAB :: "VisitedArticle list" where
  "visitedAB = [\<lparr>VisitedArticle.title = ''A'', visitedAt = 0\<rparr>,
                \<lparr>VisitedArticle.title = ''B'', visitedAt = 1\<rparr>]"

text \<open>Every link query of \<open>linksXYZ\<close> gives X, Y, Z; every summary query is rejected.\<close>

definition linksXYZ :: Fetchers where
  "linksXYZ = \<lparr>fetchArticleBacklinks = (\<lambda>t. Inr (Titles [''X'', ''Y'', ''Z''])),
               fetchArticleLinks = (\<lambda>t. Inr (Titles [''X'', ''Y'', ''Z''])),
               fetchArticleSummary = (\<lambda>t. Inl (Rejected ''offline''))\<rparr>"

text \<open>The link queries of \<open>malformed\<close> settle to \<open>null\<close>.\<close>

definition malformed :: Fetchers where
  "malformed = \<lparr>fetchArticleBacklinks = (\<lambda>t. Inr NotIterable),
                fetchArticleLinks = (\<lambda>t. Inr NotIterable),
                fetchArticleSummary = (\<lambda>t. Inl (Rejected ''offline''))\<rparr>"

text \<open>Every summary carries the title it was requested for.\<close>

definition preserving :: Fetchers where
  "preserving = \<lparr>fetchArticleBacklinks = (\<lambda>t. Inr (Titles [''X'', ''Y'', ''Z''])),
                 fetchArticleLinks = (\<lambda>t. Inr (Titles [''X'', ''Y'', ''Z''])),
                 fetchArticleSummary = (\<lambda>t. Inr (Some \<lparr>Article.title = t, displaytitle = None,
                    description = None, extract = None, thumbnail = None, pageid = None\<rparr>))\<rparr>"

text \<open>Every summary carries the title A, as after a redirect.\<close>

definition redirecting :: Fetchers where
  "redirecting = \<lparr>fetchArticleBacklinks = (\<lambda>t. Inr (Titles [''X'', ''Y''])),
                 fetchArticleLinks = (\<lambda>t. Inr (Titles [''X'', ''Y''])),
                 fetchArticleSummary = (\<lambda>t. Inr (Some \<lparr>Article.title = ''A'', displaytitle = None,
                    description = None, extract = None, thumbnail = None, pageid = None\<rparr>))\<rparr>"

text \<open>
  Every link query gives X, Y, Z; the summary of X is rejected, that of Y succeeds, every
  other one is \<open>null\<close>.
\<close>

definition mixedSummaries :: Fetchers where
  "mixedSummaries = \<lparr>fetchArticleBacklinks = (\<lambda>t. Inr (Titles [''X'', ''Y'', ''Z''])),
                 fetchArticleLinks = (\<lambda>t. Inr (Titles [''X'', ''Y'', ''Z''])),
                 fetchArticleSummary = (\<lambda>t.
                    if t = ''X'' then Inl (Rejected ''offline'')
                    else if t = ''Y'' then Inr (Some \<lparr>Article.title = ''Y'', displaytitle = Some ''Why'',
                      description = None, extract = None, thumbnail = None, pageid = Some 7\<rparr>)
                    else Inr None)\<rparr>"

text \<open>The backlink query of B is rejected; every other link query gives X, Y, Z.\<close>

definition firstDown :: Fetchers where
  "firstDown = \<lparr>fetchArticleBacklinks = (\<lambda>t. if t = ''B'' then Inl (Rejected ''offline'')
                    else Inr (Titles [''X'', ''Y'', ''Z''])),
                 fetchArticleLinks = (\<lambda>t. Inr (Titles [''X'', ''Y'', ''Z''])),
                 fetchArticleSummary = (\<lambda>t. Inl (Rejected ''offline''))\<rparr>"

text \<open>Every query is rejected.\<close>

definition offline :: Fetchers where
  "offline = \<lparr>fetchArticleBacklinks = (\<lambda>t. Inl (Rejected ''offline'')),
              fetchArticleLinks = (\<lambda>t. Inl (Rejected ''offline'')),
              fetchArticleSummary = (\<lambda>t. Inl (Rejected ''offline''))\<rparr>"

text \<open>Every link query succeeds and every summary query is rejected.\<close>

definition linksOnly :: Fetchers where
  "linksOnly = \<lparr>fetchArticleBacklinks = (\<lambda>t. Inr (Titles [''P''])),
              fetchArticleLinks = (\<lambda>t. Inr (Titles [''Q''])),
              fetchArticleSummary = (\<lambda>t. Inl (Rejected ''offline''))\<rparr>"

text \<open>
  A cache with no fresh entry, one with a fresh entry for the forward links of A, and one
  that has this entry and others.
\<close>

definition coldCache :: QueryCache where
  "coldCache = \<lparr>freshBacklinks = Map.empty, freshLinks = Map.empty, freshArticle = Map.empty\<rparr>"

definition warmCache :: QueryCache where
  "warmCache = \<lparr>freshBacklinks = Map.empty,
                freshLinks = [''A'' \<mapsto> Titles [''X'', ''Y'']],
                freshArticle = Map.empty\<rparr>"

definition warmCache' :: QueryCache where
  "warmCache' = \<lparr>freshBacklinks = [''A'' \<mapsto> Titles [''P'']],
                 freshLinks = [''A'' \<mapsto> Titles [''X'', ''Y''], ''B'' \<mapsto> Titles [''Q'']],
                 freshArticle = [''Z'' \<mapsto> None]\<rparr>"

section \<open>Notions used in the statements\<close>

text \<open>
  The query key and the settled query of the callback of one source article, given the
  number \<open>r\<close> that its call of \<open>Math.random\<close> returned.
\<close>

definition linkKey :: "random_number \<Rightarrow> VisitedArticle \<Rightarrow> queryKey" where
  "linkKey r article =
     (if float_of r > 0.5 then (''article-backlinks'', VisitedArticle.title article)
      else (''article-links'', VisitedArticle.title article))"

definition linkQuery :: "Fetchers \<Rightarrow> random_number \<Rightarrow> VisitedArticle \<Rightarrow> exn + linkList" where
  "linkQuery F r article =
     (if float_of r > 0.5 then fetchArticleBacklinks F (VisitedArticle.title article)
      else fetchArticleLinks F (VisitedArticle.title article))"

text \<open>The values of \<open>sourceArticles\<close> and \<open>linkResults\<close> in a run of \<open>getRecommendations\<close>.\<close>

definition sourceArticlesOf :: "random_source \<Rightarrow> VisitedArticle list \<Rightarrow> int \<Rightarrow> VisitedArticle list" where
  "sourceArticlesOf rnd visitedArticles limit =
     map (\<lambda>selectedIndex. visitedArticles ! selectedIndex)
       (snd (selectSources rnd visitedArticles limit))"

definition linkResultsOf ::
  "Fetchers \<Rightarrow> random_source \<Rightarrow> VisitedArticle list \<Rightarrow> int \<Rightarrow> linkList list" where
  "linkResultsOf F rnd visitedArticles limit =
     snd (snd (linkPromises F rnd (fst (selectSources rnd visitedArticles limit))
                 (sourceArticlesOf rnd visitedArticles limit)))"

text \<open>Two fetchers settle every query whose key is in \<open>K\<close> in the same way.\<close>

definition agreeOn :: "Fetchers \<Rightarrow> Fetchers \<Rightarrow> queryKey set \<Rightarrow> bool" where
  "agreeOn F F' K =
     (\<forall>t. ((''article-backlinks'', t) \<in> K \<longrightarrow> fetchArticleBacklinks F t = fetchArticleBacklinks F' t)
        \<and> ((''article-links'', t) \<in> K \<longrightarrow> fetchArticleLinks F t = fetchArticleLinks F' t)
        \<and> ((''article'', t) \<in> K \<longrightarrow> fetchArticleSummary F t = fetchArticleSummary F' t))"

text \<open>The titles that the merge reads from one link result.\<close>

definition titlesOf :: "linkList \<Rightarrow> string list" where
  "titlesOf links = (case links of Titles titles \<Rightarrow> titles | NotIterable \<Rightarrow> [])"

text \<open>
  Two caches hold the same fresh entries for the keys in \<open>K\<close>; two fetchers return the same
  for the keys in \<open>K\<close> that the cache does not serve.
\<close>

definition cachesAgreeOn :: "QueryCache \<Rightarrow> QueryCache \<Rightarrow> queryKey set \<Rightarrow> bool" where
  "cachesAgreeOn C C' K =
     (\<forall>t. ((''article-backlinks'', t) \<in> K \<longrightarrow> freshBacklinks C t = freshBacklinks C' t)
        \<and> ((''article-links'', t) \<in> K \<longrightarrow> freshLinks C t = freshLinks C' t)
        \<and> ((''article'', t) \<in> K \<longrightarrow> freshArticle C t = freshArticle C' t))"

definition agreeOnMisses :: "QueryCache \<Rightarrow> Fetchers \<Rightarrow> Fetchers \<Rightarrow> queryKey set \<Rightarrow> bool" where
  "agreeOnMisses C F F' K =
     (\<forall>t. ((''article-backlinks'', t) \<in> K \<and> freshBacklinks C t = None
            \<longrightarrow> fetchArticleBacklinks F t = fetchArticleBacklinks F' t)
        \<and> ((''article-links'', t) \<in> K \<and> freshLinks C t = None
            \<longrightarrow> fetchArticleLinks F t = fetchArticleLinks F' t)
        \<and> ((''article'', t) \<in> K \<and> freshArticle C t = None
            \<longrightarrow> fetchArticleSummary F t = fetchArticleSummary F' t))"

section \<open>Basic facts\<close>

lemma floor_random_less: "0 < n \<Longrightarrow> floor_random r n < n"
proof -
  assume n: "0 < n"
  have r: "0 \<le> float_of r" "float_of r < 1" using float_of [of r] by simp_all
  have "float_of r * real n < real n" using r n by simp
  hence "\<lfloor>float_of r * real n\<rfloor> < int n" by (simp add: floor_less_iff)
  moreover have "0 \<le> \<lfloor>float_of r * real n\<rfloor>" using r by simp
  ultimately show ?thesis unfolding floor_random_def by linarith
qed

lemma float_of_Random_zero: "float_of (Random 0) = 0"
  by (simp add: Random_inverse)

lemma float_of_Random_threeQuarters: "float_of (Random (3/4)) = 3/4"
  by (simp add: Random_inverse)

lemmas run_simps =
  getRecommendations_def tryBlock_def collectCandidates_def selectSources_def
  maxSourceArticles_def sampleLoop.simps floor_random_def float_of_Random_zero
  float_of_Random_threeQuarters addCandidate_def shuffle_def resolveSummaries_def slice0_def
  summaryLoop.simps summaryPromise_def Let_def zeros_def threeQuarters_def idle_def
  visitedA_def visitedAB_def

lemma maxSourceArticles_nonpos: "limit \<le> 0 \<Longrightarrow> maxSourceArticles visitedArticles limit \<le> 0"
  by (simp add: maxSourceArticles_def min_le_iff_disj ceiling_le_iff)

lemma sampleLoop_stop: "m \<le> int i \<Longrightarrow> sampleLoop rnd m p i a sel = (p, sel)"
  by (subst sampleLoop.simps) simp

lemma selectSources_nonpos: "limit \<le> 0 \<Longrightarrow> selectSources rnd visitedArticles limit = (0, [])"
  using maxSourceArticles_nonpos [of limit visitedArticles]
  by (simp add: selectSources_def sampleLoop_stop)

lemma summaryLoop_stop:
  "fetchLimit \<le> int i \<or> limit \<le> int (length recs)
     \<Longrightarrow> summaryLoop F limit fetchLimit c recs i = ([], [])"
  by (subst summaryLoop.simps) auto

lemma resolveSummaries_nonpos: "limit \<le> 0 \<Longrightarrow> resolveSummaries F limit allCandidates = ([], [])"
  by (simp add: resolveSummaries_def summaryLoop_stop)

lemma collectCandidates_nonpos:
  "limit \<le> 0 \<Longrightarrow> collectCandidates F rnd visitedArticles limit = (Inr [], [])"
  by (simp add: collectCandidates_def selectSources_nonpos shuffle_def)

lemma tryBlock_nonpos: "limit \<le> 0 \<Longrightarrow> tryBlock F rnd visitedArticles limit = (Inr [], [])"
  by (simp add: tryBlock_def collectCandidates_nonpos resolveSummaries_nonpos)

lemma min_step: "0 < (n::nat) \<Longrightarrow> k = Suc k' \<Longrightarrow> 1 + min k' (n - 1) = min k n"
  by arith

lemma sampleLoop_spec:
  "distinct a \<Longrightarrow> distinct sel \<Longrightarrow> set a \<inter> set sel = {} \<Longrightarrow>
   sampleLoop rnd m p i a sel = (p', sel') \<Longrightarrow>
   distinct sel' \<and> set sel' \<subseteq> set sel \<union> set a
   \<and> length sel' = length sel + min (nat (m - int i)) (length a)
   \<and> p' = p + min (nat (m - int i)) (length a)"
proof (induction rnd m p i a sel rule: sampleLoop.induct)
  case (1 rnd m p i a sel)
  show ?case
  proof (cases "int i < m \<and> length a > 0")
    case False
    with "1.prems"(4) show ?thesis
      using "1.prems"(2) by (subst (asm) sampleLoop.simps) auto
  next
    case True
    define x where "x = a ! floor_random (rnd p) (length a)"
    have lt: "floor_random (rnd p) (length a) < length a"
      using True by (simp add: floor_random_less)
    hence xin: "x \<in> set a" by (simp add: x_def)
    have rec: "sampleLoop rnd m (p + 1) (i + 1) (remove1 x a) (sel @ [x]) = (p', sel')"
      using "1.prems"(4) True by (subst (asm) sampleLoop.simps) (simp add: Let_def x_def)
    have d1: "distinct (remove1 x a)" using "1.prems"(1) by simp
    have d2: "distinct (sel @ [x])" using "1.prems"(2,3) xin by auto
    have d3: "set (remove1 x a) \<inter> set (sel @ [x]) = {}"
      using "1.prems"(1,3) by auto
    have len: "length (remove1 x a) = length a - 1"
      using xin by (simp add: length_remove1)
    have IH: "distinct sel' \<and> set sel' \<subseteq> set (sel @ [x]) \<union> set (remove1 x a)
      \<and> length sel' = length (sel @ [x]) + min (nat (m - int (i + 1))) (length (remove1 x a))
      \<and> p' = p + 1 + min (nat (m - int (i + 1))) (length (remove1 x a))"
      by (rule "1.IH" [OF True refl x_def d1 d2 d3 rec])
    have sub: "set (remove1 x a) \<subseteq> set a" by (rule set_remove1_subset)
    have ar: "1 + min (nat (m - int (i + 1))) (length a - 1) = min (nat (m - int i)) (length a)"
    proof -
      have "0 < length a" using True by simp
      moreover have "nat (m - int i) = Suc (nat (m - int (i + 1)))" using True by linarith
      ultimately show ?thesis by (rule min_step)
    qed
    show ?thesis
      using IH xin sub ar unfolding len by auto
  qed
qed

lemma summaryLoop_eq:
  "int (length recs) < limit \<Longrightarrow> fl \<le> int (length c) \<Longrightarrow>
   summaryLoop F limit fl c recs i =
     (map (Pair ''article'') (drop i (take (nat fl) c)),
      map (summaryPromise F) (drop i (take (nat fl) c)))"
proof (induction F limit fl c recs i rule: summaryLoop.induct)
  case (1 F limit fl c recs i)
  show ?case
  proof (cases "int i < fl")
    case False
    hence "drop i (take (nat fl) c) = []" by simp
    with False show ?thesis by (subst summaryLoop.simps) simp
  next
    case True
    hence i: "i < length (take (nat fl) c)" using "1.prems"(2) by simp
    have d: "drop i (take (nat fl) c) = c ! i # drop (Suc i) (take (nat fl) c)"
      using Cons_nth_drop_Suc [OF i] i by simp
    have IH: "summaryLoop F limit fl c recs (Suc i) =
       (map (Pair ''article'') (drop (Suc i) (take (nat fl) c)),
        map (summaryPromise F) (drop (Suc i) (take (nat fl) c)))"
      using "1.IH" [OF _ refl "1.prems"] True "1.prems"(1) by simp
    show ?thesis
      using True "1.prems"(1) by (subst summaryLoop.simps) (simp add: IH d Let_def)
  qed
qed

lemma collect_eq:
  "collect limit results recs =
     recs @ take (nat (limit - int (length recs))) (List.map_filter (\<lambda>r. r) results)"
proof (induction results arbitrary: recs)
  case Nil
  show ?case by (simp add: List.map_filter_simps)
next
  case (Cons r results)
  show ?case
  proof (cases r)
    case None
    thus ?thesis by (simp add: Cons.IH List.map_filter_simps)
  next
    case (Some item)
    show ?thesis
    proof (cases "int (length recs) < limit")
      case True
      hence "nat (limit - int (length recs)) = Suc (nat (limit - int (length (recs @ [item]))))"
        by simp
      thus ?thesis using True Some by (simp add: Cons.IH List.map_filter_simps)
    next
      case False
      thus ?thesis using Some by (simp add: Cons.IH List.map_filter_simps)
    qed
  qed
qed

lemma length_map_filter_le: "length (List.map_filter f xs) \<le> length xs"
  by (induction xs) (auto simp: List.map_filter_simps split: option.splits)

lemma map_filter_map: "List.map_filter (\<lambda>r. r) (map f xs) = List.map_filter f xs"
  by (induction xs) (auto simp: List.map_filter_simps split: option.splits)

lemma take_min_length: "take (min (length xs) n) xs = take n xs"
  by (simp add: min_def)

lemma resolveSummaries_eq:
  "resolveSummaries F limit allCandidates =
     (List.map_filter (summaryPromise F) (take (nat limit) allCandidates),
      map (Pair ''article'') (take (nat limit) allCandidates))"
proof (cases "0 < limit")
  case False
  hence "limit \<le> 0" by simp
  hence "resolveSummaries F limit allCandidates = ([], [])"
    by (simp add: resolveSummaries_def summaryLoop.simps)
  thus ?thesis using False by (simp add: List.map_filter_simps)
next
  case True
  let ?ct = "take (nat limit) allCandidates"
  have s: "slice0 allCandidates limit = ?ct" using True by (simp add: slice0_def)
  have fl: "min (int (length ?ct)) (limit + 5) = int (length ?ct)" using True by simp
  have loop: "summaryLoop F limit (int (length ?ct)) ?ct [] 0 =
      (map (Pair ''article'') ?ct, map (summaryPromise F) ?ct)"
    using summaryLoop_eq [of "[]" limit "int (length ?ct)" ?ct F 0] True
    by (simp add: take_min_length)
  have "length (List.map_filter (summaryPromise F) ?ct) \<le> nat limit"
    using length_map_filter_le [of "summaryPromise F" ?ct] by simp
  hence tk: "take (nat limit) (List.map_filter (summaryPromise F) ?ct)
      = List.map_filter (summaryPromise F) ?ct" by simp
  show ?thesis
    unfolding resolveSummaries_def s Let_def fl loop
    by (simp add: collect_eq map_filter_map tk)
qed

lemma fold_addCandidate:
  "P = set A \<Longrightarrow> distinct A \<Longrightarrow> set A \<inter> V = {} \<Longrightarrow>
   fold (addCandidate V) ts (P, A) = (P', A') \<Longrightarrow>
   P' = set A' \<and> distinct A' \<and> set A' \<inter> V = {} \<and> set A' \<subseteq> set A \<union> set ts"
proof (induction ts arbitrary: P A)
  case Nil
  thus ?case by auto
next
  case (Cons t ts)
  show ?case
  proof (cases "t \<notin> V \<and> t \<notin> P")
    case True
    hence step: "addCandidate V t (P, A) = (insert t P, A @ [t])" by (simp add: addCandidate_def)
    have f: "fold (addCandidate V) ts (insert t P, A @ [t]) = (P', A')"
      using Cons.prems(4) by (simp add: step)
    have "P' = set A' \<and> distinct A' \<and> set A' \<inter> V = {} \<and> set A' \<subseteq> set (A @ [t]) \<union> set ts"
    proof (rule Cons.IH [OF _ _ _ f])
      show "insert t P = set (A @ [t])" using Cons.prems(1) by simp
      show "distinct (A @ [t])" using Cons.prems(1,2) True by simp
      show "set (A @ [t]) \<inter> V = {}" using Cons.prems(3) True by simp
    qed
    thus ?thesis by auto
  next
    case False
    hence step: "addCandidate V t (P, A) = (P, A)" by (auto simp add: addCandidate_def)
    have f: "fold (addCandidate V) ts (P, A) = (P', A')"
      using Cons.prems(4) by (simp add: step)
    have "P' = set A' \<and> distinct A' \<and> set A' \<inter> V = {} \<and> set A' \<subseteq> set A \<union> set ts"
      by (rule Cons.IH [OF Cons.prems(1-3) f])
    thus ?thesis by auto
  qed
qed

lemma flatten_spec:
  "fst s = set (snd s) \<Longrightarrow> distinct (snd s) \<Longrightarrow> set (snd s) \<inter> V = {} \<Longrightarrow>
   flatten V ls s = Inr A' \<Longrightarrow> distinct A' \<and> set A' \<inter> V = {}"
proof (induction V ls s rule: flatten.induct)
  case (1 V s)
  thus ?case by simp
next
  case (2 V rest s)
  thus ?case by simp
next
  case (3 V titles rest s)
  obtain P A where s: "s = (P, A)" by (cases s)
  obtain P' A'' where f: "fold (addCandidate V) titles (P, A) = (P', A'')"
    by (cases "fold (addCandidate V) titles (P, A)")
  have inv: "P' = set A'' \<and> distinct A'' \<and> set A'' \<inter> V = {} \<and> set A'' \<subseteq> set A \<union> set titles"
    using "3.prems"(1-3) by (intro fold_addCandidate [OF _ _ _ f]) (simp_all add: s)
  show ?case
    using "3.prems"(4) inv by (intro "3.IH") (simp_all add: s f)
qed

lemma flatten_iterable:
  "NotIterable \<notin> set ls \<Longrightarrow> \<exists>A. flatten V ls s = Inr A"
  by (induction V ls s rule: flatten.induct) auto

lemma shuffleLoop_mset:
  "i < length xs \<or> xs = [] \<and> i = 0 \<Longrightarrow> mset (snd (shuffleLoop rnd p i xs)) = mset xs"
proof (induction i arbitrary: p xs)
  case 0
  show ?case by simp
next
  case (Suc k)
  hence i: "Suc k < length xs" by auto
  let ?j = "floor_random (rnd p) (Suc k + 1)"
  have "?j < Suc k + 1" by (rule floor_random_less) simp
  hence j: "?j < length xs" using i by simp
  have "mset (xs[Suc k := xs ! ?j, ?j := xs ! Suc k]) = mset xs"
    using j i by (rule mset_swap)
  moreover have "mset (snd (shuffleLoop rnd (p + 1) k (xs[Suc k := xs ! ?j, ?j := xs ! Suc k])))
     = mset (xs[Suc k := xs ! ?j, ?j := xs ! Suc k])"
    using i by (intro Suc.IH) simp
  ultimately show ?case by (simp add: Let_def)
qed

lemma shuffle_mset: "mset (snd (shuffle rnd p xs)) = mset xs"
  unfolding shuffle_def by (rule shuffleLoop_mset) (cases xs, auto)

lemma collectCandidates_distinct_unvisited:
  assumes "fst (collectCandidates F rnd visitedArticles limit) = Inr allCandidates"
  shows "distinct allCandidates \<and> set allCandidates \<inter> set (map VisitedArticle.title visitedArticles) = {}"
proof -
  let ?V = "set (map VisitedArticle.title visitedArticles)"
  obtain p1 selected where sel: "selectSources rnd visitedArticles limit = (p1, selected)"
    by (cases "selectSources rnd visitedArticles limit")
  obtain p2 keys linkResults where lp:
    "linkPromises F rnd p1 (map (\<lambda>selectedIndex. visitedArticles ! selectedIndex) selected)
       = (p2, keys, linkResults)"
    by (cases "linkPromises F rnd p1 (map (\<lambda>selectedIndex. visitedArticles ! selectedIndex) selected)")
  show ?thesis
  proof (cases "flatten ?V linkResults ({}, [])")
    case (Inl e)
    with assms show ?thesis by (simp add: collectCandidates_def sel lp)
  next
    case (Inr A)
    have A: "distinct A \<and> set A \<inter> ?V = {}"
      by (rule flatten_spec [OF _ _ _ Inr]) simp_all
    have eq: "allCandidates = snd (shuffle rnd p2 A)"
      using assms Inr by (simp add: collectCandidates_def sel lp)
    have m: "mset allCandidates = mset A" unfolding eq by (rule shuffle_mset)
    have "distinct allCandidates" using A m by (metis mset_eq_imp_distinct_iff)
    moreover have "set allCandidates = set A" using m by (rule mset_eq_setD)
    ultimately show ?thesis using A by simp
  qed
qed

lemma titles_map_filter:
  assumes "\<And>t item. t \<in> set xs \<Longrightarrow> f t = Some item \<Longrightarrow> g item = t"
  shows "map g (List.map_filter f xs) = filter (\<lambda>t. f t \<noteq> None) xs"
  using assms by (induction xs) (auto simp: List.map_filter_simps split: option.splits)

lemma summaryPromise_title:
  assumes "\<And>a. fetchArticleSummary F t = Inr (Some a) \<Longrightarrow> Article.title a = t"
    and "summaryPromise F t = Some item"
  shows "RecommendationItem.title item = t"
  using assms by (auto simp: summaryPromise_def split: sum.splits option.splits)

lemma ceiling_minus_one: "\<lceil>- 1 :: real\<rceil> = - 1"
  using ceiling_of_int [of "- 1", where ?'a = real] by simp

lemma int_min_nat: "m \<le> int n \<Longrightarrow> int (min (nat m) n) = max 0 m"
  by arith

lemma linkPromises_Cons:
  "linkPromises F rnd p (article # rest) =
     (fst (linkPromises F rnd (p + 1) rest),
      linkKey (rnd p) article # fst (snd (linkPromises F rnd (p + 1) rest)),
      (case linkQuery F (rnd p) article of Inl e \<Rightarrow> Titles [] | Inr links \<Rightarrow> links)
        # snd (snd (linkPromises F rnd (p + 1) rest)))"
  by (simp add: Let_def linkKey_def linkQuery_def split_beta)

lemma linkPromises_length:
  "length (snd (snd (linkPromises F rnd p srcs))) = length srcs
   \<and> length (fst (snd (linkPromises F rnd p srcs))) = length srcs
   \<and> fst (linkPromises F rnd p srcs) = p + length srcs"
  by (induction srcs arbitrary: p) (simp_all add: linkPromises_Cons del: linkPromises.simps(2))

lemma linkPromises_nth:
  "k < length srcs \<Longrightarrow>
   snd (snd (linkPromises F rnd p srcs)) ! k
     = (case linkQuery F (rnd (p + k)) (srcs ! k) of Inl e \<Rightarrow> Titles [] | Inr links \<Rightarrow> links)
   \<and> fst (snd (linkPromises F rnd p srcs)) ! k = linkKey (rnd (p + k)) (srcs ! k)"
proof (induction srcs arbitrary: p k)
  case Nil
  thus ?case by simp
next
  case (Cons a rest)
  show ?case
  proof (cases k)
    case 0
    thus ?thesis by (simp add: linkPromises_Cons del: linkPromises.simps(2))
  next
    case (Suc k')
    hence "k' < length rest" using Cons.prems by simp
    from Cons.IH [OF this, of "p + 1"] Suc show ?thesis
      by (simp add: linkPromises_Cons del: linkPromises.simps(2))
  qed
qed

lemma linkPromises_iterable:
  assumes "\<forall>t. fetchArticleBacklinks F t \<noteq> Inr NotIterable \<and> fetchArticleLinks F t \<noteq> Inr NotIterable"
  shows "NotIterable \<notin> set (snd (snd (linkPromises F rnd p srcs)))"
proof (induction srcs arbitrary: p)
  case Nil
  show ?case by simp
next
  case (Cons a rest)
  have "(case linkQuery F (rnd p) a of Inl e \<Rightarrow> Titles [] | Inr links \<Rightarrow> links) \<noteq> NotIterable"
    using assms by (auto simp: linkQuery_def split: sum.splits)
  thus ?case using Cons.IH [of "p + 1"]
    by (simp add: linkPromises_Cons del: linkPromises.simps(2))
qed

lemma linkPromises_agree:
  "agreeOn F F' (set (fst (snd (linkPromises F rnd p srcs)))) \<Longrightarrow>
   linkPromises F' rnd p srcs = linkPromises F rnd p srcs"
proof (induction srcs arbitrary: p)
  case Nil
  show ?case by simp
next
  case (Cons a rest)
  have K: "set (fst (snd (linkPromises F rnd p (a # rest))))
     = insert (linkKey (rnd p) a) (set (fst (snd (linkPromises F rnd (p + 1) rest))))"
    by (simp add: linkPromises_Cons del: linkPromises.simps(2))
  have "agreeOn F F' (set (fst (snd (linkPromises F rnd (p + 1) rest))))"
    using Cons.prems unfolding K agreeOn_def by simp
  hence rest: "linkPromises F' rnd (p + 1) rest = linkPromises F rnd (p + 1) rest"
    by (rule Cons.IH)
  have "linkQuery F' (rnd p) a = linkQuery F (rnd p) a"
    using Cons.prems unfolding K agreeOn_def linkQuery_def linkKey_def by (simp split: if_splits)
  thus ?case using rest by (simp add: linkPromises_Cons del: linkPromises.simps(2))
qed

lemma requests_eq:
  "requests (getRecommendations F rnd visitedArticles s limit) = snd (tryBlock F rnd visitedArticles limit)"
  by (cases "tryBlock F rnd visitedArticles limit")
     (simp add: getRecommendations_def Let_def split: sum.splits)

lemma resolved_eq:
  "resolved (getRecommendations F rnd visitedArticles s limit) =
     (case fst (tryBlock F rnd visitedArticles limit) of Inl e \<Rightarrow> [] | Inr r \<Rightarrow> r)"
  by (cases "tryBlock F rnd visitedArticles limit")
     (simp add: getRecommendations_def Let_def split: sum.splits)

lemma state_eq:
  "state (getRecommendations F rnd visitedArticles s limit) =
     (case fst (tryBlock F rnd visitedArticles limit) of
        Inl e \<Rightarrow> s\<lparr>loading := False, error := Some ''Failed to fetch recommendations''\<rparr>
      | Inr r \<Rightarrow> s\<lparr>loading := False, error := None\<rparr>)"
  by (cases "tryBlock F rnd visitedArticles limit")
     (simp add: getRecommendations_def Let_def split: sum.splits)

lemma tryBlock_eq:
  "tryBlock F rnd visitedArticles limit =
     (if visitedArticles = [] then (Inr [], [])
      else case fst (collectCandidates F rnd visitedArticles limit) of
             Inl e \<Rightarrow> (Inl e, snd (collectCandidates F rnd visitedArticles limit))
           | Inr allCandidates \<Rightarrow>
               (Inr (List.map_filter (summaryPromise F) (take (nat limit) allCandidates)),
                snd (collectCandidates F rnd visitedArticles limit)
                  @ map (Pair ''article'') (take (nat limit) allCandidates)))"
  by (cases "collectCandidates F rnd visitedArticles limit")
     (simp add: tryBlock_def resolveSummaries_eq split: sum.splits)

lemma collectCandidates_eq:
  "collectCandidates F rnd visitedArticles limit =
     (case flatten (set (map VisitedArticle.title visitedArticles))
             (linkResultsOf F rnd visitedArticles limit) ({}, []) of
        Inl e \<Rightarrow> Inl e
      | Inr allCandidates \<Rightarrow>
          Inr (snd (shuffle rnd (fst (selectSources rnd visitedArticles limit)
                                  + length (sourceArticlesOf rnd visitedArticles limit))
                      allCandidates)),
      fst (snd (linkPromises F rnd (fst (selectSources rnd visitedArticles limit))
                 (sourceArticlesOf rnd visitedArticles limit))))"
proof -
  obtain p1 selected where sel: "selectSources rnd visitedArticles limit = (p1, selected)"
    by (cases "selectSources rnd visitedArticles limit")
  let ?src = "map (\<lambda>selectedIndex. visitedArticles ! selectedIndex) selected"
  obtain p2 keys linkResults where lp: "linkPromises F rnd p1 ?src = (p2, keys, linkResults)"
    by (cases "linkPromises F rnd p1 ?src")
  have p2: "p2 = p1 + length selected"
    using linkPromises_length [of F rnd p1 ?src] by (simp add: lp)
  show ?thesis
    by (simp add: collectCandidates_def linkResultsOf_def sourceArticlesOf_def sel lp p2
          split: sum.splits)
qed

lemmas run_simps' = run_simps sourceArticlesOf_def linkResultsOf_def linkQuery_def

lemma agreeOn_mono: "agreeOn F F' K \<Longrightarrow> K' \<subseteq> K \<Longrightarrow> agreeOn F F' K'"
  unfolding agreeOn_def by blast

lemma collectCandidates_agree:
  assumes "agreeOn F F' (set (snd (collectCandidates F rnd visitedArticles limit)))"
  shows "collectCandidates F' rnd visitedArticles limit = collectCandidates F rnd visitedArticles limit"
proof -
  let ?p = "fst (selectSources rnd visitedArticles limit)"
  let ?src = "sourceArticlesOf rnd visitedArticles limit"
  have "agreeOn F F' (set (fst (snd (linkPromises F rnd ?p ?src))))"
    using assms by (simp add: collectCandidates_eq)
  hence "linkPromises F' rnd ?p ?src = linkPromises F rnd ?p ?src"
    by (rule linkPromises_agree)
  thus ?thesis by (simp add: collectCandidates_eq linkResultsOf_def)
qed

lemma summaryPromise_agree:
  "fetchArticleSummary F t = fetchArticleSummary F' t \<Longrightarrow> summaryPromise F' t = summaryPromise F t"
  by (simp add: summaryPromise_def)

lemma map_filter_agree:
  "(\<And>x. x \<in> set xs \<Longrightarrow> f x = g x) \<Longrightarrow> List.map_filter f xs = List.map_filter g xs"
  by (induction xs) (auto simp: List.map_filter_simps split: option.splits)

lemma tryBlock_agree:
  assumes "agreeOn F F' (set (snd (tryBlock F rnd visitedArticles limit)))"
  shows "tryBlock F' rnd visitedArticles limit = tryBlock F rnd visitedArticles limit"
proof (cases "visitedArticles = []")
  case True
  thus ?thesis by (simp add: tryBlock_eq)
next
  case False
  have sub: "set (snd (collectCandidates F rnd visitedArticles limit))
      \<subseteq> set (snd (tryBlock F rnd visitedArticles limit))"
    using False by (auto simp: tryBlock_eq split: sum.splits)
  have cc: "collectCandidates F' rnd visitedArticles limit = collectCandidates F rnd visitedArticles limit"
    by (rule collectCandidates_agree) (rule agreeOn_mono [OF assms sub])
  show ?thesis
  proof (cases "fst (collectCandidates F rnd visitedArticles limit)")
    case (Inl e)
    thus ?thesis using False by (simp add: tryBlock_eq cc)
  next
    case (Inr c)
    have "fetchArticleSummary F t = fetchArticleSummary F' t" if "t \<in> set (take (nat limit) c)" for t
    proof -
      have "(''article'', t) \<in> set (snd (tryBlock F rnd visitedArticles limit))"
        using that False Inr by (simp add: tryBlock_eq)
      thus ?thesis using assms unfolding agreeOn_def by blast
    qed
    hence "List.map_filter (summaryPromise F') (take (nat limit) c)
        = List.map_filter (summaryPromise F) (take (nat limit) c)"
      by (intro map_filter_agree summaryPromise_agree)
    thus ?thesis using False Inr by (simp add: tryBlock_eq cc)
  qed
qed

lemma summary_requests_count:
  "length (snd (resolveSummaries F limit allCandidates)) = min (length allCandidates) (nat limit)"
  by (simp add: resolveSummaries_eq)

lemma fold_addCandidate_set:
  "P = set A \<Longrightarrow> fold (addCandidate V) ts (P, A) = (P', A') \<Longrightarrow>
   P' = set A' \<and> set A' = set A \<union> (set ts - V)"
proof (induction ts arbitrary: P A)
  case Nil
  thus ?case by auto
next
  case (Cons t ts)
  show ?case
  proof (cases "t \<notin> V \<and> t \<notin> P")
    case True
    hence step: "addCandidate V t (P, A) = (insert t P, A @ [t])" by (simp add: addCandidate_def)
    have f: "fold (addCandidate V) ts (insert t P, A @ [t]) = (P', A')"
      using Cons.prems(2) by (simp add: step)
    have "insert t P = set (A @ [t])" using Cons.prems(1) by simp
    from Cons.IH [OF this f] True show ?thesis by auto
  next
    case False
    hence step: "addCandidate V t (P, A) = (P, A)" by (auto simp add: addCandidate_def)
    have f: "fold (addCandidate V) ts (P, A) = (P', A')"
      using Cons.prems(2) by (simp add: step)
    from Cons.IH [OF Cons.prems(1) f] False Cons.prems(1) show ?thesis by auto
  qed
qed

lemma flatten_set:
  "fst s = set (snd s) \<Longrightarrow> flatten V ls s = Inr A' \<Longrightarrow>
   set A' = set (snd s) \<union> ((\<Union>links\<in>set ls. set (titlesOf links)) - V)"
proof (induction V ls s rule: flatten.induct)
  case (1 V s)
  thus ?case by simp
next
  case (2 V rest s)
  thus ?case by simp
next
  case (3 V titles rest s)
  obtain P A where s: "s = (P, A)" by (cases s)
  obtain P' A'' where f: "fold (addCandidate V) titles (P, A) = (P', A'')"
    by (cases "fold (addCandidate V) titles (P, A)")
  have inv: "P' = set A'' \<and> set A'' = set A \<union> (set titles - V)"
    using "3.prems"(1) by (intro fold_addCandidate_set [OF _ f]) (simp add: s)
  have "set A' = set (snd (P', A'')) \<union> ((\<Union>links\<in>set rest. set (titlesOf links)) - V)"
    using "3.prems"(2) inv by (intro "3.IH" [unfolded s f]) (simp_all add: s f)
  thus ?case using inv by (auto simp: s titlesOf_def)
qed

lemma collectCandidates_pool:
  assumes "fst (collectCandidates F rnd visitedArticles limit) = Inr allCandidates"
  shows "set allCandidates
    = (\<Union>links\<in>set (linkResultsOf F rnd visitedArticles limit). set (titlesOf links))
        - set (map VisitedArticle.title visitedArticles)"
proof -
  let ?V = "set (map VisitedArticle.title visitedArticles)"
  let ?ls = "linkResultsOf F rnd visitedArticles limit"
  show ?thesis
  proof (cases "flatten ?V ?ls ({}, [])")
    case (Inl e)
    with assms show ?thesis by (simp add: collectCandidates_eq)
  next
    case (Inr A)
    have A: "set A = set (snd ({}::string set, []::string list))
        \<union> ((\<Union>links\<in>set ?ls. set (titlesOf links)) - ?V)"
      by (rule flatten_set [OF _ Inr]) simp
    obtain p where "allCandidates = snd (shuffle rnd p A)"
      using assms Inr by (auto simp: collectCandidates_eq)
    hence "mset allCandidates = mset A" by (simp add: shuffle_mset)
    hence "set allCandidates = set A" by (rule mset_eq_setD)
    thus ?thesis using A by simp
  qed
qed

lemma Union_nth_except:
  assumes "k < length ls" and "f (ls ! k) = {}"
  shows "(\<Union>x\<in>set ls. f x) = (\<Union>j\<in>{..<length ls} - {k}. f (ls ! j))"
proof
  show "(\<Union>x\<in>set ls. f x) \<subseteq> (\<Union>j\<in>{..<length ls} - {k}. f (ls ! j))"
  proof
    fix t assume "t \<in> (\<Union>x\<in>set ls. f x)"
    then obtain x where x: "x \<in> set ls" "t \<in> f x" by blast
    then obtain j where j: "j < length ls" "ls ! j = x" by (auto simp: in_set_conv_nth)
    have "j \<noteq> k" using x(2) j(2) assms(2) by auto
    thus "t \<in> (\<Union>j\<in>{..<length ls} - {k}. f (ls ! j))" using j x(2) by auto
  qed
  show "(\<Union>j\<in>{..<length ls} - {k}. f (ls ! j)) \<subseteq> (\<Union>x\<in>set ls. f x)"
    by auto
qed

lemma outcome_agree:
  assumes "\<forall>p. rnd p = rnd' p"
    and "agreeOn F F' (set (requests (getRecommendations F rnd visitedArticles s limit)))"
  shows "resolved (getRecommendations F' rnd' visitedArticles s' limit)
           = resolved (getRecommendations F rnd visitedArticles s limit)
    \<and> error (state (getRecommendations F' rnd' visitedArticles s' limit))
           = error (state (getRecommendations F rnd visitedArticles s limit))
    \<and> loading (state (getRecommendations F' rnd' visitedArticles s' limit))
           = loading (state (getRecommendations F rnd visitedArticles s limit))
    \<and> requests (getRecommendations F' rnd' visitedArticles s' limit)
           = requests (getRecommendations F rnd visitedArticles s limit)"
proof -
  have r: "rnd' = rnd" using assms(1) by (simp add: fun_eq_iff)
  have "tryBlock F' rnd visitedArticles limit = tryBlock F rnd visitedArticles limit"
    using assms(2) by (intro tryBlock_agree) (simp add: requests_eq)
  thus ?thesis unfolding r by (simp add: resolved_eq state_eq requests_eq split: sum.splits)
qed

lemma throughCache_agree:
  "cachesAgreeOn C C' K \<Longrightarrow> agreeOnMisses C F F' K
     \<Longrightarrow> agreeOn (throughCache C F) (throughCache C' F') K"
  unfolding cachesAgreeOn_def agreeOnMisses_def agreeOn_def throughCache_def fetchQuery_def
  by (auto split: option.splits)

lemmas cache_simps = getRecommendationsCached_def throughCache_def fetchQuery_def

section \<open>Source sampling\<close>

text \<open>
  C5, as the claim states it, fails for a limit of -2 or less: on the history A and the
  limit -2 the sampler selects no article, while \<open>min(N, ceil(limit/2))\<close> is -1.
\<close>

theorem sampler_count_counterexample:
  "1 \<le> length visitedA \<and>
   int (length (snd (selectSources zeros visitedA (-2))))
     \<noteq> min (int (length visitedA)) \<lceil>real_of_int (-2) / 2\<rceil>"
  by (simp add: run_simps ceiling_minus_one)

text \<open>
  C5, amended: for every visited history of size \<open>N\<close> and every limit, the sampler selects
  exactly \<open>max(0, min(N, ceil(limit/2)))\<close> source articles, at pairwise distinct indices of
  the visited history.
\<close>

theorem sampler_distinct_sources:
  "int (length (snd (selectSources rnd visitedArticles limit)))
     = max 0 (min (int (length visitedArticles)) \<lceil>real_of_int limit / 2\<rceil>)
   \<and> distinct (snd (selectSources rnd visitedArticles limit))
   \<and> set (snd (selectSources rnd visitedArticles limit)) \<subseteq> {..<length visitedArticles}"
proof -
  obtain p' sel' where r: "selectSources rnd visitedArticles limit = (p', sel')"
    by (cases "selectSources rnd visitedArticles limit")
  have "distinct sel' \<and> set sel' \<subseteq> set [] \<union> set [0..<length visitedArticles]
     \<and> length sel' = length ([]::nat list)
          + min (nat (maxSourceArticles visitedArticles limit - int 0)) (length [0..<length visitedArticles])
     \<and> p' = 0 + min (nat (maxSourceArticles visitedArticles limit - int 0)) (length [0..<length visitedArticles])"
    by (rule sampleLoop_spec [OF _ _ _ r [unfolded selectSources_def]]) simp_all
  moreover have "maxSourceArticles visitedArticles limit \<le> int (length visitedArticles)"
    by (simp add: maxSourceArticles_def)
  ultimately have "distinct sel'" and "set sel' \<subseteq> {..<length visitedArticles}"
    and "int (length sel') = max 0 (maxSourceArticles visitedArticles limit)"
    by (auto simp: int_min_nat)
  thus ?thesis unfolding r maxSourceArticles_def by simp
qed

theorem sampler_distinct_sources_witness:
  "snd (selectSources threeQuarters visitedAB 4) = [1, 0]
   \<and> int (length (snd (selectSources threeQuarters visitedAB 4)))
     = max 0 (min (int (length visitedAB)) \<lceil>real_of_int 4 / 2\<rceil>)
   \<and> distinct (snd (selectSources threeQuarters visitedAB 4))
   \<and> set (snd (selectSources threeQuarters visitedAB 4)) \<subseteq> {..<length visitedAB}"
proof -
  have "snd (selectSources threeQuarters visitedAB 4) = [1, 0]"
    by (simp add: run_simps)
  thus ?thesis using sampler_distinct_sources [of threeQuarters visitedAB 4] by simp
qed

section \<open>Link fan-out\<close>

text \<open>
  C7: if the link query of the \<open>k\<close>-th sampled source article is rejected, its entry of
  \<open>linkResults\<close> is the empty list, while \<open>linkResults\<close> still has one entry per source
  article and the entry of every sibling whose query settles is what it settled to. The
  candidate pool that the merge and the shuffle produce has no duplicates and consists of
  exactly the titles of the siblings' entries that are not visited: every sibling's links
  reach the pool. Unless some link query settles to a value that cannot be iterated, the pool
  exists and the request ends with \<open>error\<close> null.
\<close>

theorem link_failure_isolated:
  assumes "k < length (sourceArticlesOf rnd visitedArticles limit)"
    and "linkQuery F (rnd (fst (selectSources rnd visitedArticles limit) + k))
           (sourceArticlesOf rnd visitedArticles limit ! k) = Inl e"
  shows "length (linkResultsOf F rnd visitedArticles limit)
           = length (sourceArticlesOf rnd visitedArticles limit)
    \<and> linkResultsOf F rnd visitedArticles limit ! k = Titles []
    \<and> (\<forall>j < length (sourceArticlesOf rnd visitedArticles limit). \<forall>links.
          linkQuery F (rnd (fst (selectSources rnd visitedArticles limit) + j))
            (sourceArticlesOf rnd visitedArticles limit ! j) = Inr links \<longrightarrow>
          linkResultsOf F rnd visitedArticles limit ! j = links)
    \<and> (\<forall>allCandidates. fst (collectCandidates F rnd visitedArticles limit) = Inr allCandidates \<longrightarrow>
          distinct allCandidates
          \<and> set allCandidates
              = (\<Union>j\<in>{..<length (sourceArticlesOf rnd visitedArticles limit)} - {k}.
                    set (titlesOf (linkResultsOf F rnd visitedArticles limit ! j)))
                - set (map VisitedArticle.title visitedArticles))
    \<and> ((\<forall>t. fetchArticleBacklinks F t \<noteq> Inr NotIterable
             \<and> fetchArticleLinks F t \<noteq> Inr NotIterable) \<longrightarrow>
          (\<exists>allCandidates. fst (collectCandidates F rnd visitedArticles limit) = Inr allCandidates)
          \<and> error (state (getRecommendations F rnd visitedArticles s limit)) = None)"
proof -
  let ?p = "fst (selectSources rnd visitedArticles limit)"
  let ?src = "sourceArticlesOf rnd visitedArticles limit"
  let ?ls = "linkResultsOf F rnd visitedArticles limit"
  have len: "length ?ls = length ?src"
    by (simp add: linkResultsOf_def linkPromises_length)
  have atk: "?ls ! k = Titles []"
    using linkPromises_nth [OF assms(1), of F rnd ?p] assms(2) by (simp add: linkResultsOf_def)
  have sib: "?ls ! j = links"
    if "j < length ?src" "linkQuery F (rnd (?p + j)) (?src ! j) = Inr links"
    for j links
    using linkPromises_nth [OF that(1), of F rnd ?p] that(2) by (simp add: linkResultsOf_def)
  have pool: "distinct c \<and> set c
      = (\<Union>j\<in>{..<length ?src} - {k}. set (titlesOf (?ls ! j)))
          - set (map VisitedArticle.title visitedArticles)"
    if c: "fst (collectCandidates F rnd visitedArticles limit) = Inr c" for c
  proof -
    have "set (titlesOf (?ls ! k)) = {}" by (simp add: atk titlesOf_def)
    hence "(\<Union>links\<in>set ?ls. set (titlesOf links))
        = (\<Union>j\<in>{..<length ?ls} - {k}. set (titlesOf (?ls ! j)))"
      using assms(1) len by (intro Union_nth_except) simp_all
    thus ?thesis
      using collectCandidates_pool [OF c] collectCandidates_distinct_unvisited [OF c] len
      by simp
  qed
  have ok: "(\<exists>c. fst (collectCandidates F rnd visitedArticles limit) = Inr c)
      \<and> error (state (getRecommendations F rnd visitedArticles s limit)) = None"
    if it: "\<forall>t. fetchArticleBacklinks F t \<noteq> Inr NotIterable \<and> fetchArticleLinks F t \<noteq> Inr NotIterable"
  proof -
    have "NotIterable \<notin> set ?ls"
      unfolding linkResultsOf_def by (rule linkPromises_iterable [OF it])
    then obtain A where
      "flatten (set (map VisitedArticle.title visitedArticles)) ?ls ({}, []) = Inr A"
      using flatten_iterable by blast
    hence ex: "\<exists>c. fst (collectCandidates F rnd visitedArticles limit) = Inr c"
      by (simp add: collectCandidates_eq)
    thus ?thesis by (auto simp: state_eq tryBlock_eq)
  qed
  show ?thesis using len atk sib pool ok by blast
qed

theorem link_failure_isolated_witness:
  "(0::nat) < length (sourceArticlesOf threeQuarters visitedAB 4)
   \<and> map VisitedArticle.title (sourceArticlesOf threeQuarters visitedAB 4) = [''B'', ''A'']
   \<and> linkQuery firstDown (threeQuarters (fst (selectSources threeQuarters visitedAB 4) + 0))
        (sourceArticlesOf threeQuarters visitedAB 4 ! 0) = Inl (Rejected ''offline'')
   \<and> linkResultsOf firstDown threeQuarters visitedAB 4 = [Titles [], Titles [''X'', ''Y'', ''Z'']]
   \<and> fst (collectCandidates firstDown threeQuarters visitedAB 4) = Inr [''X'', ''Y'', ''Z'']
   \<and> set [''X'', ''Y'', ''Z'']
       = (\<Union>j\<in>{..<length (sourceArticlesOf threeQuarters visitedAB 4)} - {0}.
             set (titlesOf (linkResultsOf firstDown threeQuarters visitedAB 4 ! j)))
         - set (map VisitedArticle.title visitedAB)
   \<and> error (state (getRecommendations firstDown threeQuarters visitedAB idle 4)) = None
   \<and> map RecommendationItem.title
        (resolved (getRecommendations firstDown threeQuarters visitedAB idle 4))
       = [''X'', ''Y'', ''Z'']"
proof -
  have k: "(0::nat) < length (sourceArticlesOf threeQuarters visitedAB 4)"
    by (simp add: run_simps')
  have src: "map VisitedArticle.title (sourceArticlesOf threeQuarters visitedAB 4) = [''B'', ''A'']"
    by (simp add: run_simps')
  have q: "linkQuery firstDown (threeQuarters (fst (selectSources threeQuarters visitedAB 4) + 0))
        (sourceArticlesOf threeQuarters visitedAB 4 ! 0) = Inl (Rejected ''offline'')"
    by (simp add: run_simps' firstDown_def)
  note T = link_failure_isolated [OF k q, of idle]
  have it: "\<forall>t. fetchArticleBacklinks firstDown t \<noteq> Inr NotIterable
                \<and> fetchArticleLinks firstDown t \<noteq> Inr NotIterable"
    by (simp add: firstDown_def)
  have l: "linkResultsOf firstDown threeQuarters visitedAB 4 = [Titles [], Titles [''X'', ''Y'', ''Z'']]"
    by (simp add: run_simps' firstDown_def)
  have c: "fst (collectCandidates firstDown threeQuarters visitedAB 4) = Inr [''X'', ''Y'', ''Z'']"
    by (simp add: run_simps firstDown_def)
  have u: "set [''X'', ''Y'', ''Z'']
       = (\<Union>j\<in>{..<length (sourceArticlesOf threeQuarters visitedAB 4)} - {0}.
             set (titlesOf (linkResultsOf firstDown threeQuarters visitedAB 4 ! j)))
         - set (map VisitedArticle.title visitedAB)"
    using T c by blast
  have e: "error (state (getRecommendations firstDown threeQuarters visitedAB idle 4)) = None"
    using T it by blast
  have r: "map RecommendationItem.title
        (resolved (getRecommendations firstDown threeQuarters visitedAB idle 4))
       = [''X'', ''Y'', ''Z'']"
    by (simp add: run_simps firstDown_def)
  show ?thesis by (intro conjI k src q l c u e r)
qed

section \<open>Summary resolution\<close>

text \<open>
  C1: the claim says that \<open>min(candidateCount, limit + 5)\<close> candidates are submitted to the
  summary fetch. On the history A with limit 1, where the merge produces the three
  candidates X, Y, Z, the run issues one summary query, not \<open>min(3, 6) = 3\<close>:
  \<open>candidateTitles\<close> is cut to \<open>limit\<close> before \<open>fetchLimit\<close> is computed from its length.
\<close>

theorem overfetch_slack_unused:
  "fst (collectCandidates linksXYZ zeros visitedA 1) = Inr [''Y'', ''Z'', ''X'']
   \<and> requests (getRecommendations linksXYZ zeros visitedA idle 1)
       = [(''article-links'', ''A''), (''article'', ''Y'')]
   \<and> min (int (length [''Y'', ''Z'', ''X''])) (1 + 5) = 3"
  by (simp add: run_simps linksXYZ_def)

text \<open>
  C2, as the claim states it, fails: on the history A with limit 3 the candidates Y, Z, X
  are selected (their summary queries are issued); the summary of Z is \<open>null\<close>, so its
  promise resolves to \<open>null\<close> and the result has no item for Z.
\<close>

theorem summary_null_dropped_counterexample:
  "requests (getRecommendations mixedSummaries zeros visitedA idle 3)
     = [(''article-links'', ''A''), (''article'', ''Y''), (''article'', ''Z''), (''article'', ''X'')]
   \<and> fetchArticleSummary mixedSummaries ''Z'' = Inr None
   \<and> summaryPromise mixedSummaries ''Z'' = None
   \<and> map RecommendationItem.title (resolved (getRecommendations mixedSummaries zeros visitedA idle 3))
     = [''Y'', ''X'']"
  by (simp add: run_simps mixedSummaries_def)

text \<open>
  C2, amended: the candidates selected for resolution are the first \<open>limit\<close> shuffled
  candidates; a summary query is issued for each, in this order. A rejected query yields the
  stub \<open>{title, displaytitle: title}\<close>, a summary record yields the item with its six fields,
  and a \<open>null\<close> summary yields nothing. The result is the list of the items so obtained, in
  the order of the candidates; when no selected candidate has a \<open>null\<close> summary, every
  selected candidate has its item in the result.
\<close>

theorem summary_resolution_in_candidate_order:
  "snd (resolveSummaries F limit allCandidates)
     = map (Pair ''article'') (take (nat limit) allCandidates)
   \<and> fst (resolveSummaries F limit allCandidates)
     = List.map_filter (summaryPromise F) (take (nat limit) allCandidates)
   \<and> (\<forall>t e. fetchArticleSummary F t = Inl e \<longrightarrow>
         summaryPromise F t = Some \<lparr>title = t, displaytitle = Some t, description = None,
           extract = None, thumbnail = None, pageid = None\<rparr>)
   \<and> (\<forall>t a. fetchArticleSummary F t = Inr (Some a) \<longrightarrow>
         summaryPromise F t = Some \<lparr>title = Article.title a,
           displaytitle = Article.displaytitle a, description = Article.description a,
           extract = Article.extract a, thumbnail = Article.thumbnail a,
           pageid = Article.pageid a\<rparr>)
   \<and> (\<forall>t. fetchArticleSummary F t = Inr None \<longrightarrow> summaryPromise F t = None)
   \<and> ((\<forall>t \<in> set (take (nat limit) allCandidates). fetchArticleSummary F t \<noteq> Inr None) \<longrightarrow>
         map Some (fst (resolveSummaries F limit allCandidates))
           = map (summaryPromise F) (take (nat limit) allCandidates))"
proof -
  have "map Some (List.map_filter f xs) = map f xs" if "\<forall>t\<in>set xs. f t \<noteq> None"
    for f :: "string \<Rightarrow> RecommendationItem option" and xs
    using that by (induction xs) (auto simp: List.map_filter_simps split: option.splits)
  moreover have "summaryPromise F t \<noteq> None" if "fetchArticleSummary F t \<noteq> Inr None" for t
    using that by (auto simp: summaryPromise_def split: sum.splits option.splits)
  ultimately have "map Some (List.map_filter (summaryPromise F) xs) = map (summaryPromise F) xs"
    if "\<forall>t\<in>set xs. fetchArticleSummary F t \<noteq> Inr None" for xs
    using that by blast
  thus ?thesis
    by (simp add: resolveSummaries_eq summaryPromise_def)
qed

theorem summary_resolution_in_candidate_order_witness:
  "take (nat 2) [''X'', ''Y'', ''Z''] = [''X'', ''Y'']
   \<and> fetchArticleSummary mixedSummaries ''X'' \<noteq> Inr None
   \<and> fetchArticleSummary mixedSummaries ''Y'' \<noteq> Inr None
   \<and> fetchArticleSummary mixedSummaries ''X'' = Inl (Rejected ''offline'')
   \<and> map Some (fst (resolveSummaries mixedSummaries 2 [''X'', ''Y'', ''Z'']))
       = map (summaryPromise mixedSummaries) (take (nat 2) [''X'', ''Y'', ''Z''])
   \<and> snd (resolveSummaries mixedSummaries 2 [''X'', ''Y'', ''Z''])
       = map (Pair ''article'') (take (nat 2) [''X'', ''Y'', ''Z''])
   \<and> summaryPromise mixedSummaries ''X''
       = Some \<lparr>title = ''X'', displaytitle = Some ''X'', description = None,
           extract = None, thumbnail = None, pageid = None\<rparr>"
proof -
  note T = summary_resolution_in_candidate_order [of mixedSummaries 2 "[''X'', ''Y'', ''Z'']"]
  have h: "\<forall>t \<in> set (take (nat 2) [''X'', ''Y'', ''Z'']). fetchArticleSummary mixedSummaries t \<noteq> Inr None"
    by (simp add: mixedSummaries_def)
  have x: "fetchArticleSummary mixedSummaries ''X'' = Inl (Rejected ''offline'')"
    by (simp add: mixedSummaries_def)
  have c1: "snd (resolveSummaries mixedSummaries 2 [''X'', ''Y'', ''Z''])
       = map (Pair ''article'') (take (nat 2) [''X'', ''Y'', ''Z''])"
    using T by blast
  have c2: "map Some (fst (resolveSummaries mixedSummaries 2 [''X'', ''Y'', ''Z'']))
       = map (summaryPromise mixedSummaries) (take (nat 2) [''X'', ''Y'', ''Z''])"
    using T h by blast
  have c3: "summaryPromise mixedSummaries ''X''
       = Some \<lparr>title = ''X'', displaytitle = Some ''X'', description = None,
           extract = None, thumbnail = None, pageid = None\<rparr>"
    using T x by blast
  have t: "take (nat 2) [''X'', ''Y'', ''Z''] = [''X'', ''Y'']" by simp
  have nx: "fetchArticleSummary mixedSummaries ''X'' \<noteq> Inr None"
    and ny: "fetchArticleSummary mixedSummaries ''Y'' \<noteq> Inr None"
    by (simp_all add: mixedSummaries_def)
  show ?thesis by (intro conjI t nx ny x c2 c1 c3)
qed

section \<open>The result\<close>

text \<open>
  C3, as the claim states it, fails: the titles of the result are those of the summary
  records, not those of the candidates. When every summary carries the title A, the result
  on the history A has the title A twice. For the limit -1 the result has no item, which is
  more than -1.
\<close>

theorem recommendation_titles_counterexample:
  "visitedA \<noteq> []
   \<and> map VisitedArticle.title visitedA = [''A'']
   \<and> map RecommendationItem.title (resolved (getRecommendations redirecting zeros visitedA idle 4))
       = [''A'', ''A'']
   \<and> \<not> int (length (resolved (getRecommendations redirecting zeros visitedA idle (-1)))) \<le> -1"
  by (simp add: run_simps redirecting_def)

text \<open>
  C3, amended: for every visited history and every limit, \<open>getRecommendations(limit)\<close>
  resolves to a list of at most \<open>max(limit, 0)\<close> items; if every summary record has the title
  it was requested for, the titles of the items are pairwise distinct and none of them is the
  title of a visited article.
\<close>

theorem recommendations_bounded_distinct_unvisited:
  "int (length (resolved (getRecommendations F rnd visitedArticles s limit))) \<le> max 0 limit
   \<and> ((\<forall>t a. fetchArticleSummary F t = Inr (Some a) \<longrightarrow> Article.title a = t) \<longrightarrow>
        distinct (map RecommendationItem.title (resolved (getRecommendations F rnd visitedArticles s limit)))
        \<and> set (map RecommendationItem.title (resolved (getRecommendations F rnd visitedArticles s limit)))
            \<inter> set (map VisitedArticle.title visitedArticles) = {})"
proof (cases "visitedArticles \<noteq> [] \<and> (\<exists>c. fst (collectCandidates F rnd visitedArticles limit) = Inr c)")
  case False
  hence "resolved (getRecommendations F rnd visitedArticles s limit) = []"
    by (auto simp: resolved_eq tryBlock_eq split: sum.splits)
  thus ?thesis by simp
next
  case True
  then obtain c where c: "fst (collectCandidates F rnd visitedArticles limit) = Inr c" by blast
  let ?sel = "take (nat limit) c"
  have r: "resolved (getRecommendations F rnd visitedArticles s limit)
      = List.map_filter (summaryPromise F) ?sel"
    using True c by (simp add: resolved_eq tryBlock_eq)
  have "length (List.map_filter (summaryPromise F) ?sel) \<le> length ?sel"
    by (rule length_map_filter_le)
  moreover have "length ?sel \<le> nat limit" by simp
  ultimately have len: "int (length (List.map_filter (summaryPromise F) ?sel)) \<le> max 0 limit"
    by linarith
  have dc: "distinct c" "set c \<inter> set (map VisitedArticle.title visitedArticles) = {}"
    using collectCandidates_distinct_unvisited [OF c] by simp_all
  have sub: "set ?sel \<subseteq> set c" by (rule set_take_subset)
  {
    assume H: "\<forall>t a. fetchArticleSummary F t = Inr (Some a) \<longrightarrow> Article.title a = t"
    have t: "map RecommendationItem.title (List.map_filter (summaryPromise F) ?sel)
        = filter (\<lambda>t. summaryPromise F t \<noteq> None) ?sel"
      by (rule titles_map_filter) (rule summaryPromise_title, use H in blast)
    have "distinct (filter (\<lambda>t. summaryPromise F t \<noteq> None) ?sel)"
      using dc(1) by simp
    moreover have "set (filter (\<lambda>t. summaryPromise F t \<noteq> None) ?sel) \<subseteq> set c"
      using sub by auto
    ultimately have "distinct (map RecommendationItem.title (List.map_filter (summaryPromise F) ?sel))
      \<and> set (map RecommendationItem.title (List.map_filter (summaryPromise F) ?sel))
            \<inter> set (map VisitedArticle.title visitedArticles) = {}"
      unfolding t using dc(2) by blast
  }
  thus ?thesis unfolding r using len by blast
qed

theorem recommendations_bounded_distinct_unvisited_witness:
  "map RecommendationItem.title (resolved (getRecommendations preserving threeQuarters visitedAB idle 2))
       = [''X'', ''Y'']
   \<and> int (length (resolved (getRecommendations preserving threeQuarters visitedAB idle 2))) \<le> max 0 2
   \<and> distinct (map RecommendationItem.title (resolved (getRecommendations preserving threeQuarters visitedAB idle 2)))
   \<and> set (map RecommendationItem.title (resolved (getRecommendations preserving threeQuarters visitedAB idle 2)))
        \<inter> set (map VisitedArticle.title visitedAB) = {}"
proof -
  have h: "\<forall>t a. fetchArticleSummary preserving t = Inr (Some a) \<longrightarrow> Article.title a = t"
    by (auto simp: preserving_def)
  have v: "map RecommendationItem.title (resolved (getRecommendations preserving threeQuarters visitedAB idle 2))
       = [''X'', ''Y'']"
    by (simp add: run_simps preserving_def)
  show ?thesis
    using h v recommendations_bounded_distinct_unvisited [of preserving threeQuarters visitedAB idle 2]
    by blast
qed

section \<open>Determinism\<close>

text \<open>
  C10, as the claim states it, fails: the query cache is an input that the claim does not
  list. Two runs on the history A with limit 4, the same random numbers and the same fetchers,
  all of which fail, differ: with no fresh entry the link query of A is rejected and the run
  resolves to the empty list; with a fresh entry for the forward links of A the query
  resolves to the cached X, Y without calling the fetcher, and the run resolves to two items.
\<close>

theorem cache_is_an_input_counterexample:
  "requests (getRecommendationsCached coldCache offline zeros visitedA idle 4)
     = [(''article-links'', ''A'')]
   \<and> resolved (getRecommendationsCached coldCache offline zeros visitedA idle 4) = []
   \<and> requests (getRecommendationsCached warmCache offline zeros visitedA idle 4)
     = [(''article-links'', ''A''), (''article'', ''Y''), (''article'', ''X'')]
   \<and> map RecommendationItem.title
       (resolved (getRecommendationsCached warmCache offline zeros visitedA idle 4)) = [''Y'', ''X'']"
  by (simp add: cache_simps run_simps coldCache_def warmCache_def offline_def)

text \<open>
  C10, amended: two runs on the same visited history and limit, with random sources that
  return the same sequence, caches that hold the same fresh entries for the keys the first
  run requests, and fetchers that return the same for the requested keys that the cache does
  not serve, resolve to the same list, end in the same \<open>error\<close> and \<open>loading\<close> state and
  issue the same queries, whatever the hook state was before each run.
\<close>

theorem getRecommendations_deterministic:
  assumes "\<forall>p. rnd p = rnd' p"
    and "cachesAgreeOn C C'
           (set (requests (getRecommendationsCached C F rnd visitedArticles s limit)))"
    and "agreeOnMisses C F F'
           (set (requests (getRecommendationsCached C F rnd visitedArticles s limit)))"
  shows "resolved (getRecommendationsCached C' F' rnd' visitedArticles s' limit)
           = resolved (getRecommendationsCached C F rnd visitedArticles s limit)
    \<and> error (state (getRecommendationsCached C' F' rnd' visitedArticles s' limit))
           = error (state (getRecommendationsCached C F rnd visitedArticles s limit))
    \<and> loading (state (getRecommendationsCached C' F' rnd' visitedArticles s' limit))
           = loading (state (getRecommendationsCached C F rnd visitedArticles s limit))
    \<and> requests (getRecommendationsCached C' F' rnd' visitedArticles s' limit)
           = requests (getRecommendationsCached C F rnd visitedArticles s limit)"
  unfolding getRecommendationsCached_def
  by (rule outcome_agree [OF assms(1)])
     (rule throughCache_agree [OF assms(2,3) [unfolded getRecommendationsCached_def]])

theorem getRecommendations_deterministic_witness:
  "(\<forall>p. zeros p = zeros p)
   \<and> requests (getRecommendationsCached warmCache offline zeros visitedA idle 4)
       = [(''article-links'', ''A''), (''article'', ''Y''), (''article'', ''X'')]
   \<and> cachesAgreeOn warmCache warmCache'
        (set (requests (getRecommendationsCached warmCache offline zeros visitedA idle 4)))
   \<and> agreeOnMisses warmCache offline linksOnly
        (set (requests (getRecommendationsCached warmCache offline zeros visitedA idle 4)))
   \<and> freshLinks warmCache ''B'' \<noteq> freshLinks warmCache' ''B''
   \<and> fetchArticleLinks offline ''A'' \<noteq> fetchArticleLinks linksOnly ''A''
   \<and> resolved (getRecommendationsCached warmCache' linksOnly zeros visitedA
         \<lparr>loading = True, error = Some ''stale''\<rparr> 4)
        = resolved (getRecommendationsCached warmCache offline zeros visitedA idle 4)
   \<and> state (getRecommendationsCached warmCache' linksOnly zeros visitedA
         \<lparr>loading = True, error = Some ''stale''\<rparr> 4)
        = state (getRecommendationsCached warmCache offline zeros visitedA idle 4)"
proof -
  have q: "requests (getRecommendationsCached warmCache offline zeros visitedA idle 4)
       = [(''article-links'', ''A''), (''article'', ''Y''), (''article'', ''X'')]"
    by (simp add: cache_simps run_simps warmCache_def offline_def)
  have c: "cachesAgreeOn warmCache warmCache'
        (set (requests (getRecommendationsCached warmCache offline zeros visitedA idle 4)))"
    unfolding q by (simp add: cachesAgreeOn_def warmCache_def warmCache'_def)
  have a: "agreeOnMisses warmCache offline linksOnly
        (set (requests (getRecommendationsCached warmCache offline zeros visitedA idle 4)))"
    unfolding q by (simp add: agreeOnMisses_def offline_def linksOnly_def warmCache_def)
  have d1: "freshLinks warmCache ''B'' \<noteq> freshLinks warmCache' ''B''"
    by (simp add: warmCache_def warmCache'_def)
  have d2: "fetchArticleLinks offline ''A'' \<noteq> fetchArticleLinks linksOnly ''A''"
    by (simp add: offline_def linksOnly_def)
  have h: "\<forall>p. zeros p = zeros p" by simp
  note T = getRecommendations_deterministic [OF h c a, of "\<lparr>loading = True, error = Some ''stale''\<rparr>"]
  have r: "resolved (getRecommendationsCached warmCache' linksOnly zeros visitedA
         \<lparr>loading = True, error = Some ''stale''\<rparr> 4)
        = resolved (getRecommendationsCached warmCache offline zeros visitedA idle 4)"
    using T by blast
  have s: "state (getRecommendationsCached warmCache' linksOnly zeros visitedA
         \<lparr>loading = True, error = Some ''stale''\<rparr> 4)
        = state (getRecommendationsCached warmCache offline zeros visitedA idle 4)"
    using T by (simp add: HookState.equality)
  show ?thesis by (intro conjI h q c a d1 d2 r s)
qed

section \<open>Orchestration\<close>

text \<open>
  C6: \<open>getRecommendations\<close> never rejects. Whatever the fetchers, the random source, the
  history and the limit are, the call has an outcome, in which \<open>loading\<close> is false. When
  the \<open>try\<close> block throws, \<open>error\<close> is the message \<open>Failed to fetch recommendations\<close> and
  the call resolves to the empty list; when it returns, \<open>error\<close> is null and the call resolves
  to what the block returned (also on the early return).
\<close>

theorem getRecommendations_never_rejects:
  "loading (state (getRecommendations F rnd visitedArticles s limit)) = False \<and>
   (case fst (tryBlock F rnd visitedArticles limit) of
      Inl e \<Rightarrow> error (state (getRecommendations F rnd visitedArticles s limit))
                 = Some ''Failed to fetch recommendations''
               \<and> resolved (getRecommendations F rnd visitedArticles s limit) = []
    | Inr recommendations \<Rightarrow>
        error (state (getRecommendations F rnd visitedArticles s limit)) = None
        \<and> resolved (getRecommendations F rnd visitedArticles s limit) = recommendations)"
  by (cases "tryBlock F rnd visitedArticles limit")
     (simp add: getRecommendations_def split: sum.splits)

text \<open>The \<open>catch\<close> branch is taken when a link query settles to a value that is not iterable.\<close>

theorem getRecommendations_never_rejects_witness:
  "fst (tryBlock malformed zeros visitedA 4) = Inl TypeError \<and>
   loading (state (getRecommendations malformed zeros visitedA idle 4)) = False \<and>
   error (state (getRecommendations malformed zeros visitedA idle 4))
     = Some ''Failed to fetch recommendations'' \<and>
   resolved (getRecommendations malformed zeros visitedA idle 4) = []"
proof -
  have t: "fst (tryBlock malformed zeros visitedA 4) = Inl TypeError"
    by (simp add: run_simps malformed_def)
  show ?thesis
    using getRecommendations_never_rejects [of malformed zeros visitedA idle 4] t by simp
qed

text \<open>
  C8: on the empty visited history \<open>getRecommendations\<close> resolves to the empty list, issues no
  query (no backlink, forward-link or summary request), and \<open>error\<close> is null (and \<open>loading\<close>
  false) afterwards.
\<close>

theorem getRecommendations_empty_history:
  "getRecommendations F rnd [] s limit =
     \<lparr>resolved = [], state = s\<lparr>loading := False, error := None\<rparr>, requests = []\<rparr>"
  by (simp add: getRecommendations_def tryBlock_def)

text \<open>
  C9: for a limit that is zero or negative and any visited history, \<open>getRecommendations\<close>
  resolves to the empty list with \<open>error\<close> null, the sampler selects no source article, and
  no link or summary query is issued.
\<close>

theorem getRecommendations_nonpositive_limit:
  assumes "limit \<le> 0"
  shows "resolved (getRecommendations F rnd visitedArticles s limit) = []
    \<and> error (state (getRecommendations F rnd visitedArticles s limit)) = None
    \<and> snd (selectSources rnd visitedArticles limit) = []
    \<and> requests (getRecommendations F rnd visitedArticles s limit) = []"
  using assms by (simp add: getRecommendations_def tryBlock_nonpos selectSources_nonpos)

theorem getRecommendations_nonpositive_limit_witness:
  "(-3::int) \<le> 0
    \<and> resolved (getRecommendations linksXYZ threeQuarters visitedAB idle (-3)) = []
    \<and> error (state (getRecommendations linksXYZ threeQuarters visitedAB idle (-3))) = None
    \<and> snd (selectSources threeQuarters visitedAB (-3)) = []
    \<and> requests (getRecommendations linksXYZ threeQuarters visitedAB idle (-3)) = []"
proof -
  have h: "(-3::int) \<le> 0" by simp
  show ?thesis
    using h getRecommendations_nonpositive_limit [OF h, of linksXYZ threeQuarters visitedAB idle]
    by simp
qed

end
